theory Spec2Isabelle
  imports Main
begin

section \<open>Bytes, strings and the wire constants of irc/msg.go\<close>

text \<open>
  A Go string is a sequence of bytes; it is modelled as a \<^typ>\<open>string\<close> (a list of
  8-bit \<^typ>\<open>char\<close>), so that \<open>len(s)\<close> is \<^term>\<open>length s\<close> and \<open>s[i]\<close> is a byte.
\<close>

abbreviation NUL :: char where "NUL \<equiv> CHR 0x00"
abbreviation CR :: char where "CR \<equiv> CHR 0x0D"
abbreviation LF :: char where "LF \<equiv> CHR 0x0A"
abbreviation SP :: char where "SP \<equiv> CHR '' ''"
abbreviation COLON :: char where "COLON \<equiv> CHR '':''"

text \<open>\<open>const MaxMsgLength = 512\<close> and \<open>const MsgMarker = "\r\n"\<close>.\<close>

definition MaxMsgLength :: int where
  "MaxMsgLength = 512"

definition MsgMarker :: string where
  "MsgMarker = [CR, LF]"

section \<open>The message and the errors\<close>

record Msg =
  Raw :: string
  Origin :: string
  User :: string
  Host :: string
  Cmd :: string
  Args :: "string list"

text \<open>The zero value \<open>Msg{}\<close> (\<open>var msg Msg\<close>).\<close>

definition zeroMsg :: Msg where
  "zeroMsg = \<lparr>Raw = [], Origin = [], User = [], Host = [], Cmd = [], Args = []\<rparr>"

text \<open>
  The error values of the package: \<open>io.EOF\<close>, an \<open>errors.New(text)\<close>, and the
  struct \<open>MsgTooLong{Msg, NTrunc}\<close>.
\<close>

datatype error = EOF | ErrorString string | MsgTooLong string int

text \<open>A run-time panic of the Go program (indexing a string out of range).\<close>

datatype panic = IndexOutOfRange

text \<open>\<open>unexpected(what) = errors.New("unexpected " + what + " in message stream")\<close>\<close>

definition unexpected :: "string \<Rightarrow> error" where
  "unexpected what = ErrorString (''unexpected '' @ what @ '' in message stream'')"

section \<open>The codec: splitString, ParseMsg, RawString\<close>

text \<open>
  \<open>strings.IndexRune(s, delim)\<close> for a delimiter below \<open>utf8.RuneSelf\<close>: the index of
  the first byte equal to the delimiter, or \<open>-1\<close>.
\<close>

fun IndexRune :: "string \<Rightarrow> char \<Rightarrow> int" where
  "IndexRune [] delim = - 1"
| "IndexRune (c # cs) delim =
     (if c = delim then 0
      else (let i = IndexRune cs delim in if i < 0 then - 1 else i + 1))"

text \<open>The loop \<open>for ; i < len(s) && s[i] == ' '; i++ {}\<close> of splitString.\<close>

function skipSpaces :: "string \<Rightarrow> nat \<Rightarrow> nat" where
  "skipSpaces s i = (if i < length s \<and> s ! i = SP then skipSpaces s (Suc i) else i)"
  by pat_completeness auto
termination
  by (relation "measure (\<lambda>(s, i). length s - i)") auto

declare skipSpaces.simps [simp del]

definition splitString :: "string \<Rightarrow> char \<Rightarrow> string \<times> string" where
  "splitString s delim =
     (let i = IndexRune s delim in
      if i < 0 then (s, [])
      else if delim \<noteq> SP then (take (nat i) s, drop (nat i + 1) s)
      else (take (nat i) s, drop (skipSpaces s (nat i)) s))"

text \<open>
  The argument loop of ParseMsg: \<open>for len(data) > 0 { ... msg.Args = append(msg.Args, arg) }\<close>.
  Every round removes at least one byte of \<open>data\<close>.
\<close>

lemma IndexRune_bounds: "IndexRune s d < int (length s) \<and> - 1 \<le> IndexRune s d"
  by (induction s) (auto simp: Let_def)

lemma skipSpaces_step:
  "i < length s \<Longrightarrow> s ! i = SP \<Longrightarrow> skipSpaces s i = skipSpaces s (Suc i)"
  by (subst skipSpaces.simps) simp

lemma skipSpaces_stop:
  "\<not> (i < length s \<and> s ! i = SP) \<Longrightarrow> skipSpaces s i = i"
  by (subst skipSpaces.simps) auto

lemma skipSpaces_ge: "i \<le> skipSpaces s i"
proof (induction s i rule: skipSpaces.induct)
  case (1 s i)
  show ?case
  proof (cases "i < length s \<and> s ! i = SP")
    case True
    then have "skipSpaces s i = skipSpaces s (Suc i)"
      by (simp add: skipSpaces_step)
    moreover from True 1 have "Suc i \<le> skipSpaces s (Suc i)"
      by blast
    ultimately show ?thesis by linarith
  next
    case False
    then show ?thesis by (simp add: skipSpaces_stop)
  qed
qed

lemma IndexRune_hit: "0 \<le> IndexRune s d \<Longrightarrow> s ! nat (IndexRune s d) = d"
proof (induction s)
  case Nil
  then show ?case by simp
next
  case (Cons c cs)
  show ?case
  proof (cases "c = d")
    case True
    then show ?thesis by simp
  next
    case False
    with Cons.prems have nn: "0 \<le> IndexRune cs d"
      by (simp add: Let_def split: if_splits)
    with False Cons.IH show ?thesis
      by (simp add: Let_def nat_add_distrib)
  qed
qed

lemma splitString_shorter:
  assumes "data \<noteq> []"
  shows "length (snd (splitString data SP)) < length data"
proof (cases "IndexRune data SP < 0")
  case True
  with assms show ?thesis by (simp add: splitString_def)
next
  case False
  define i where "i = nat (IndexRune data SP)"
  from False IndexRune_bounds [of data SP] have lt: "i < length data"
    by (simp add: i_def)
  from False have "data ! i = SP"
    using IndexRune_hit [of data SP] by (simp add: i_def)
  with lt have "skipSpaces data i = skipSpaces data (Suc i)"
    by (rule skipSpaces_step)
  with skipSpaces_ge [of "Suc i" data] have "0 < skipSpaces data i" by simp
  with False assms show ?thesis
    by (simp add: splitString_def i_def Let_def)
qed

function argsLoop :: "string list \<Rightarrow> string \<Rightarrow> string list" where
  "argsLoop args data =
     (if length data > 0 then
        (if hd data = COLON then args @ [tl data]
         else argsLoop (args @ [fst (splitString data SP)]) (snd (splitString data SP)))
      else args)"
  by pat_completeness auto
termination
  by (relation "measure (\<lambda>(args, data). length data)")
    (auto simp: splitString_shorter)

declare argsLoop.simps [simp del]

text \<open>
  ParseMsg. \<open>data[0]\<close> on the empty string is an index out of range: the Go run time
  panics. Otherwise the function returns \<open>(msg, nil)\<close>, modelled as \<open>Inr msg\<close>.
\<close>

definition ParseMsg :: "string \<Rightarrow> panic + Msg" where
  "ParseMsg data0 =
     (if length data0 = 0 then Inl IndexOutOfRange
      else
        (let msg = zeroMsg\<lparr>Raw := data0\<rparr>;
             (msg, data) =
               (if hd data0 = COLON then
                  (let (prefix, data) = splitString (tl data0) SP;
                       (origin, prefix) = splitString prefix (CHR ''!'');
                       (user, host) = splitString prefix (CHR ''@'')
                   in (msg\<lparr>Origin := origin, User := user, Host := host\<rparr>, data))
                else (msg, data0));
             (cmd, data) = splitString data SP
         in Inr (msg\<lparr>Cmd := cmd, Args := argsLoop (Args msg) data\<rparr>)))"

text \<open>\<open>strings.TrimRight(s, cutset)\<close> for a cutset of single-byte characters.\<close>

definition TrimRight :: "string \<Rightarrow> string \<Rightarrow> string" where
  "TrimRight s cutset = rev (dropWhile (\<lambda>c. c \<in> set cutset) (rev s))"

text \<open>
  The loop \<open>for i, a := range m.Args\<close> of RawString: \<open>n\<close> is \<open>len(m.Args)\<close>, \<open>i\<close> the
  index of the head of the arguments still to be appended.
\<close>

fun appendArgs :: "string \<Rightarrow> int \<Rightarrow> int \<Rightarrow> string list \<Rightarrow> string" where
  "appendArgs raw n i [] = raw"
| "appendArgs raw n i (a # as) =
     appendArgs (if i = n - 1 then raw @ '' :'' @ a else raw @ '' '' @ a) n (i + 1) as"

text \<open>The string \<open>raw\<close> when control reaches the label \<open>out\<close>.\<close>

definition rawCandidate :: "Msg \<Rightarrow> string" where
  "rawCandidate m =
     (if Raw m \<noteq> [] then Raw m
      else
        (let raw = [];
             raw =
               (if Origin m \<noteq> [] then
                  (let raw = raw @ '':'' @ Origin m;
                       raw = (if User m \<noteq> [] then raw @ ''!'' @ User m @ ''@'' @ Host m else raw)
                   in raw @ '' '')
                else raw);
             raw = raw @ Cmd m
         in appendArgs raw (int (length (Args m))) 0 (Args m)))"

definition RawString :: "Msg \<Rightarrow> error + string" where
  "RawString m =
     (let raw = rawCandidate m in
      if int (length raw) > MaxMsgLength - int (length MsgMarker)
      then Inl (MsgTooLong raw (int (length raw) - (MaxMsgLength - int (length MsgMarker))))
      else Inr (TrimRight raw [LF]))"

section \<open>The stream framer: readMsgData and junk\<close>

text \<open>
  The \<open>*bufio.Reader\<close> is the state of the framer: the bytes still to be read, and the
  error that \<open>ReadByte\<close> reports once they are used up (\<open>io.EOF\<close> at the end of a
  stream, or the transport's error).
\<close>

record Reader =
  pending :: string
  ending :: error

definition ReadByte :: "Reader \<Rightarrow> (error + char) \<times> Reader" where
  "ReadByte r =
     (case pending r of
        [] \<Rightarrow> (Inl (ending r), r)
      | c # cs \<Rightarrow> (Inr c, r\<lparr>pending := cs\<rparr>))"

text \<open>
  The loop of junk, with its variables \<open>last\<close> (here \<open>lastb\<close>) and \<open>n\<close>; the result
  is the pair \<open>(n, err)\<close> the function returns, and the reader after it.
\<close>

function junkLoop :: "char \<Rightarrow> int \<Rightarrow> Reader \<Rightarrow> (int \<times> error option) \<times> Reader" where
  "junkLoop lastb n r =
     (case ReadByte r of
        (Inl err, r1) \<Rightarrow> ((n, Some err), r1)
      | (Inr c, r1) \<Rightarrow>
          (let n1 = n + 1 in
           if lastb = MsgMarker ! 0 \<and> c = MsgMarker ! 1 then ((n1 - 1, None), r1)
           else junkLoop c n1 r1))"
  by pat_completeness auto
termination
  by (relation "measure (\<lambda>(lastb, n, r). length (pending r))")
    (auto simp: ReadByte_def split: list.splits)

declare junkLoop.simps [simp del]

definition junk :: "Reader \<Rightarrow> (int \<times> error option) \<times> Reader" where
  "junk r = junkLoop NUL 0 r"

text \<open>
  The loop of readMsgData with its buffer \<open>msg\<close>. The cases of the \<open>switch\<close> are
  tried in the order of the source.
\<close>

function readMsgDataLoop :: "string \<Rightarrow> Reader \<Rightarrow> (error + string) \<times> Reader" where
  "readMsgDataLoop msg r =
     (case ReadByte r of
        (Inl err, r1) \<Rightarrow>
          (if err = EOF \<and> length msg > 0 then (Inl (unexpected ''end of file''), r1)
           else (Inl err, r1))
      | (Inr c, r1) \<Rightarrow>
          (if c = NUL then (Inl (unexpected ''null''), r1)
           else if c = LF then readMsgDataLoop msg r1
           else if c = CR then
             (case ReadByte r1 of
                (Inl err, r2) \<Rightarrow>
                  (Inl (if err = EOF then unexpected ''end of file'' else err), r2)
              | (Inr c2, r2) \<Rightarrow>
                  (if c2 \<noteq> LF then (Inl (unexpected ''carrage return''), r2)
                   else if length msg = 0 then readMsgDataLoop msg r2
                   else (Inr msg, r2)))
           else if int (length msg) \<ge> MaxMsgLength - 2 then
             (case junk r1 of
                ((n, _), r2) \<Rightarrow>
                  (Inl (MsgTooLong (take (length msg - 1) msg) (n + 1)), r2))
           else readMsgDataLoop (msg @ [c]) r1))"
  by pat_completeness auto
termination
  by (relation "measure (\<lambda>(msg, r). length (pending r))")
    (auto simp: ReadByte_def split: list.splits)

declare readMsgDataLoop.simps [simp del]

definition readMsgData :: "Reader \<Rightarrow> (error + string) \<times> Reader" where
  "readMsgData r = readMsgDataLoop [] r"

text \<open>
  Repeated calls of readMsgData on one reader, as the read loop and the tests make
  them: the results of \<open>k\<close> successive calls, in order, and the reader left.
\<close>

fun readCalls :: "nat \<Rightarrow> Reader \<Rightarrow> (error + string) list \<times> Reader" where
  "readCalls 0 r = ([], r)"
| "readCalls (Suc k) r =
     (case readMsgData r of
        (x, r1) \<Rightarrow> (case readCalls k r1 of (xs, r2) \<Rightarrow> (x # xs, r2)))"

section \<open>Registration: register\<close>

text \<open>The commands and numeric replies that register tests, from the constant block.\<close>

abbreviation PING :: string where "PING \<equiv> ''PING''"
abbreviation PONG :: string where "PONG \<equiv> ''PONG''"
abbreviation RPL_WELCOME :: string where "RPL_WELCOME \<equiv> ''001''"
abbreviation ERR_NONICKNAMEGIVEN :: string where "ERR_NONICKNAMEGIVEN \<equiv> ''431''"
abbreviation ERR_ERRONEUSNICKNAME :: string where "ERR_ERRONEUSNICKNAME \<equiv> ''432''"
abbreviation ERR_NICKNAMEINUSE :: string where "ERR_NICKNAMEINUSE \<equiv> ''433''"
abbreviation ERR_NICKCOLLISION :: string where "ERR_NICKCOLLISION \<equiv> ''436''"
abbreviation ERR_UNAVAILRESOURCE :: string where "ERR_UNAVAILRESOURCE \<equiv> ''437''"
abbreviation ERR_NEEDMOREPARAMS :: string where "ERR_NEEDMOREPARAMS \<equiv> ''461''"
abbreviation ERR_ALREADYREGISTRED :: string where "ERR_ALREADYREGISTRED \<equiv> ''462''"
abbreviation ERR_RESTRICTED :: string where "ERR_RESTRICTED \<equiv> ''484''"

text \<open>
  The map \<open>CmdNames\<close>, every entry of the source in its order, the constant keys
  replaced by their values. Looking up a key that is absent gives the empty string.
\<close>

definition CmdNamesTable :: "(string \<times> string) list" where
  "CmdNamesTable =
    [(''PASS'', ''PASS''), (''NICK'', ''NICK''), (''USER'', ''USER''), (''OPER'', ''OPER''),
     (''MODE'', ''MODE''), (''SERVICE'', ''SERVICE''), (''QUIT'', ''QUIT''),
     (''SQUIT'', ''SQUIT''), (''JOIN'', ''JOIN''), (''PART'', ''PART''),
     (''TOPIC'', ''TOPIC''), (''NAMES'', ''NAMES''), (''LIST'', ''LIST''),
     (''INVITE'', ''INVITE''), (''KICK'', ''KICK''), (''PRIVMSG'', ''PRIVMSG''),
     (''NOTICE'', ''NOTICE''), (''MOTD'', ''MOTD''), (''LUSERS'', ''LUSERS''),
     (''VERSION'', ''VERSION''), (''STATS'', ''STATS''), (''LINKS'', ''LINKS''),
     (''TIME'', ''TIME''), (''CONNECT'', ''CONNECT''), (''TRACE'', ''TRACE''),
     (''ADMIN'', ''ADMIN''), (''INFO'', ''INFO''), (''SERVLIST'', ''SERVLIST''),
     (''SQUERY'', ''SQUERY''), (''WHO'', ''WHO''), (''WHOIS'', ''WHOIS''),
     (''WHOWAS'', ''WHOWAS''), (''KILL'', ''KILL''), (''PING'', ''PING''),
     (''PONG'', ''PONG''), (''ERROR'', ''ERROR''), (''AWAY'', ''AWAY''),
     (''REHASH'', ''REHASH''), (''DIE'', ''DIE''), (''RESTART'', ''RESTART''),
     (''SUMMON'', ''SUMMON''), (''USERS'', ''USERS''), (''WALLOPS'', ''WALLOPS''),
     (''USERHOST'', ''USERHOST''), (''ISON'', ''ISON''), (''001'', ''RPL_WELCOME''),
     (''002'', ''RPL_YOURHOST''), (''003'', ''RPL_CREATED''), (''004'', ''RPL_MYINFO''),
     (''005'', ''RPL_BOUNCE''), (''302'', ''RPL_USERHOST''), (''303'', ''RPL_ISON''),
     (''301'', ''RPL_AWAY''), (''305'', ''RPL_UNAWAY''), (''306'', ''RPL_NOWAWAY''),
     (''311'', ''RPL_WHOISUSER''), (''312'', ''RPL_WHOISSERVER''),
     (''313'', ''RPL_WHOISOPERATOR''), (''317'', ''RPL_WHOISIDLE''),
     (''318'', ''RPL_ENDOFWHOIS''), (''319'', ''RPL_WHOISCHANNELS''),
     (''314'', ''RPL_WHOWASUSER''), (''369'', ''RPL_ENDOFWHOWAS''),
     (''321'', ''RPL_LISTSTART''), (''322'', ''RPL_LIST''), (''323'', ''RPL_LISTEND''),
     (''325'', ''RPL_UNIQOPIS''), (''324'', ''RPL_CHANNELMODEIS''),
     (''331'', ''RPL_NOTOPIC''), (''332'', ''RPL_TOPIC''), (''341'', ''RPL_INVITING''),
     (''342'', ''RPL_SUMMONING''), (''346'', ''RPL_INVITELIST''),
     (''347'', ''RPL_ENDOFINVITELIST''), (''348'', ''RPL_EXCEPTLIST''),
     (''349'', ''RPL_ENDOFEXCEPTLIST''), (''351'', ''RPL_VERSION''),
     (''352'', ''RPL_WHOREPLY''), (''315'', ''RPL_ENDOFWHO''), (''353'', ''RPL_NAMREPLY''),
     (''366'', ''RPL_ENDOFNAMES''), (''364'', ''RPL_LINKS''), (''365'', ''RPL_ENDOFLINKS''),
     (''367'', ''RPL_BANLIST''), (''368'', ''RPL_ENDOFBANLIST''), (''371'', ''RPL_INFO''),
     (''374'', ''RPL_ENDOFINFO''), (''375'', ''RPL_MOTDSTART''), (''372'', ''RPL_MOTD''),
     (''376'', ''RPL_ENDOFMOTD''), (''381'', ''RPL_YOUREOPER''),
     (''382'', ''RPL_REHASHING''), (''383'', ''RPL_YOURESERVICE''), (''391'', ''RPL_TIME''),
     (''392'', ''RPL_USERSSTART''), (''393'', ''RPL_USERS''), (''394'', ''RPL_ENDOFUSERS''),
     (''395'', ''RPL_NOUSERS''), (''200'', ''RPL_TRACELINK''),
     (''201'', ''RPL_TRACECONNECTING''), (''202'', ''RPL_TRACEHANDSHAKE''),
     (''203'', ''RPL_TRACEUNKNOWN''), (''204'', ''RPL_TRACEOPERATOR''),
     (''205'', ''RPL_TRACEUSER''), (''206'', ''RPL_TRACESERVER''),
     (''207'', ''RPL_TRACESERVICE''), (''208'', ''RPL_TRACENEWTYPE''),
     (''209'', ''RPL_TRACECLASS''), (''210'', ''RPL_TRACERECONNECT''),
     (''261'', ''RPL_TRACELOG''), (''262'', ''RPL_TRACEEND''),
     (''211'', ''RPL_STATSLINKINFO''), (''212'', ''RPL_STATSCOMMANDS''),
     (''219'', ''RPL_ENDOFSTATS''), (''242'', ''RPL_STATSUPTIME''),
     (''243'', ''RPL_STATSOLINE''), (''221'', ''RPL_UMODEIS''), (''234'', ''RPL_SERVLIST''),
     (''235'', ''RPL_SERVLISTEND''), (''251'', ''RPL_LUSERCLIENT''),
     (''252'', ''RPL_LUSEROP''), (''253'', ''RPL_LUSERUNKNOWN''),
     (''254'', ''RPL_LUSERCHANNELS''), (''255'', ''RPL_LUSERME''),
     (''256'', ''RPL_ADMINME''), (''257'', ''RPL_ADMINLOC''), (''258'', ''RPL_ADMINLOC''),
     (''259'', ''RPL_ADMINEMAIL''), (''263'', ''RPL_TRYAGAIN''),
     (''401'', ''ERR_NOSUCHNICK''), (''402'', ''ERR_NOSUCHSERVER''),
     (''403'', ''ERR_NOSUCHCHANNEL''), (''404'', ''ERR_CANNOTSENDTOCHAN''),
     (''405'', ''ERR_TOOMANYCHANNELS''), (''406'', ''ERR_WASNOSUCHNICK''),
     (''407'', ''ERR_TOOMANYTARGETS''), (''408'', ''ERR_NOSUCHSERVICE''),
     (''409'', ''ERR_NOORIGIN''), (''411'', ''ERR_NORECIPIENT''),
     (''412'', ''ERR_NOTEXTTOSEND''), (''413'', ''ERR_NOTOPLEVEL''),
     (''414'', ''ERR_WILDTOPLEVEL''), (''415'', ''ERR_BADMASK''),
     (''421'', ''ERR_UNKNOWNCOMMAND''), (''422'', ''ERR_NOMOTD''),
     (''423'', ''ERR_NOADMININFO''), (''424'', ''ERR_FILEERROR''),
     (''431'', ''ERR_NONICKNAMEGIVEN''), (''432'', ''ERR_ERRONEUSNICKNAME''),
     (''433'', ''ERR_NICKNAMEINUSE''), (''436'', ''ERR_NICKCOLLISION''),
     (''437'', ''ERR_UNAVAILRESOURCE''), (''441'', ''ERR_USERNOTINCHANNEL''),
     (''442'', ''ERR_NOTONCHANNEL''), (''443'', ''ERR_USERONCHANNEL''),
     (''444'', ''ERR_NOLOGIN''), (''445'', ''ERR_SUMMONDISABLED''),
     (''446'', ''ERR_USERSDISABLED''), (''451'', ''ERR_NOTREGISTERED''),
     (''461'', ''ERR_NEEDMOREPARAMS''), (''462'', ''ERR_ALREADYREGISTRED''),
     (''463'', ''ERR_NOPERMFORHOST''), (''464'', ''ERR_PASSWDMISMATCH''),
     (''465'', ''ERR_YOUREBANNEDCREEP''), (''466'', ''ERR_YOUWILLBEBANNED''),
     (''467'', ''ERR_KEYSET''), (''471'', ''ERR_CHANNELISFULL''),
     (''472'', ''ERR_UNKNOWNMODE''), (''473'', ''ERR_INVITEONLYCHAN''),
     (''474'', ''ERR_BANNEDFROMCHAN''), (''475'', ''ERR_BADCHANNELKEY''),
     (''476'', ''ERR_BADCHANMASK''), (''477'', ''ERR_NOCHANMODES''),
     (''478'', ''ERR_BANLISTFULL''), (''481'', ''ERR_NOPRIVILEGES''),
     (''482'', ''ERR_CHANOPRIVSNEEDED''), (''483'', ''ERR_CANTKILLSERVER''),
     (''484'', ''ERR_RESTRICTED''), (''485'', ''ERR_UNIQOPPRIVSNEEDED''),
     (''491'', ''ERR_NOOPERHOST''), (''501'', ''ERR_UMODEUNKNOWNFLAG''),
     (''502'', ''ERR_USERSDONTMATCH'')]"

definition CmdNames :: "string \<Rightarrow> string" where
  "CmdNames k = (case map_of CmdNamesTable k of None \<Rightarrow> [] | Some v \<Rightarrow> v)"

text \<open>
  The client, as register sees it: \<open>Server\<close>; the messages that the channel \<open>In\<close>
  still delivers before it is closed; the messages sent on the channel \<open>Out\<close> so far.
\<close>

record Client =
  Server :: string
  In :: "Msg list"
  Out :: "Msg list"

text \<open>\<open>c.Out <- m\<close>\<close>

definition send :: "Client \<Rightarrow> Msg \<Rightarrow> Client" where
  "send c m = c\<lparr>Out := Out c @ [m]\<rparr>"

text \<open>
  The loop \<open>for msg := range c.In\<close> of register, and the \<open>return\<close> after it. The
  result is the error returned (\<open>None\<close> for \<open>nil\<close>) and the client left.
\<close>

function registerLoop :: "Client \<Rightarrow> error option \<times> Client" where
  "registerLoop c =
     (case In c of
        [] \<Rightarrow> (Some (ErrorString ''unexpected end of file''), c)
      | msg # rest \<Rightarrow>
          (let c = c\<lparr>In := rest\<rparr> in
           if Cmd msg \<in> {ERR_NONICKNAMEGIVEN, ERR_ERRONEUSNICKNAME, ERR_NICKNAMEINUSE,
                          ERR_NICKCOLLISION, ERR_UNAVAILRESOURCE, ERR_RESTRICTED,
                          ERR_NEEDMOREPARAMS, ERR_ALREADYREGISTRED} then
             (if length (Args msg) > 0
              then (Some (ErrorString (Args msg ! (length (Args msg) - 1))), c)
              else (Some (ErrorString (CmdNames (Cmd msg))), c))
           else if Cmd msg = RPL_WELCOME then (None, c\<lparr>Server := Origin msg\<rparr>)
           else if Cmd msg = PING then
             registerLoop (send c (zeroMsg\<lparr>Cmd := PONG, Args := Args msg\<rparr>))
           else registerLoop c))"
  by pat_completeness auto
termination
  by (relation "measure (\<lambda>c. length (In c))") (auto simp: send_def)

declare registerLoop.simps [simp del]

definition register :: "Client \<Rightarrow> string \<Rightarrow> string \<Rightarrow> string \<Rightarrow> error option \<times> Client" where
  "register c nick fullname pass =
     (let c = (if pass \<noteq> [] then send c (zeroMsg\<lparr>Cmd := ''PASS'', Args := [pass]\<rparr>) else c);
          c = send c (zeroMsg\<lparr>Cmd := ''NICK'', Args := [nick]\<rparr>);
          c = send c (zeroMsg\<lparr>Cmd := ''USER'', Args := [nick, ''0'', ''*'', fullname]\<rparr>)
      in registerLoop c)"

definition registrationErrors :: "string list" where
  "registrationErrors =
     [ERR_NONICKNAMEGIVEN, ERR_ERRONEUSNICKNAME, ERR_NICKNAMEINUSE, ERR_NICKCOLLISION,
      ERR_UNAVAILRESOURCE, ERR_RESTRICTED, ERR_NEEDMOREPARAMS, ERR_ALREADYREGISTRED]"

section \<open>Streams of lines, for stating the framing properties\<close>

text \<open>
  A payload byte is any byte the framer appends to its buffer: not NUL, CR or LF. A
  well-formed line has between 1 and 510 payload bytes (512 with its terminator).
\<close>

definition payloadByte :: "char \<Rightarrow> bool" where
  "payloadByte c = (c \<noteq> NUL \<and> c \<noteq> CR \<and> c \<noteq> LF)"

definition wfLine :: "string \<Rightarrow> bool" where
  "wfLine l = (l \<noteq> [] \<and> length l \<le> 510 \<and> list_all payloadByte l)"

text \<open>
  A stream made of lines, each followed by the terminator, with empty lines (a bare
  terminator) and bare LF bytes between them.
\<close>

datatype item = Line string | EmptyLine | BareLF

fun encodeItem :: "item \<Rightarrow> string" where
  "encodeItem (Line l) = l @ MsgMarker"
| "encodeItem EmptyLine = MsgMarker"
| "encodeItem BareLF = [LF]"

definition encodeItems :: "item list \<Rightarrow> string" where
  "encodeItems items = concat (map encodeItem items)"

fun linesOf :: "item list \<Rightarrow> string list" where
  "linesOf [] = []"
| "linesOf (Line l # items) = l # linesOf items"
| "linesOf (EmptyLine # items) = linesOf items"
| "linesOf (BareLF # items) = linesOf items"

text \<open>
  After the words of the specification (\<open>scan forward discarding bytes until the
  two-byte terminator is found\<close>), not after junk: the number of bytes of a stream that
  stand before its first two-byte terminator (all of them when there is none), which is
  what a scan discards before it reaches the terminator.
\<close>

fun bytesBeforeMarker :: "string \<Rightarrow> nat" where
  "bytesBeforeMarker (a # b # cs) =
     (if [a, b] = MsgMarker then 0 else Suc (bytesBeforeMarker (b # cs)))"
| "bytesBeforeMarker cs = length cs"

section \<open>The limits of the wire grammar, for stating the round trip\<close>

text \<open>
  The grammar of a line is \<open>[':' prefix SP] command *(SP middle) [SP ':' trailing]\<close>
  with \<open>prefix = origin ['!' user] ['@' host]\<close>. No field holds NUL, CR or LF. The
  origin, the user, the host, the command and every argument but the last hold no space;
  the command and those arguments are not empty and do not start with a colon; the
  origin holds no \<open>!\<close> and the user no \<open>@\<close>; the line is at most 510 bytes long.
\<close>

definition nospcrlf :: "char \<Rightarrow> bool" where
  "nospcrlf c = (c \<noteq> NUL \<and> c \<noteq> CR \<and> c \<noteq> LF \<and> c \<noteq> SP)"

definition middleOK :: "string \<Rightarrow> bool" where
  "middleOK s = (s \<noteq> [] \<and> hd s \<noteq> COLON \<and> list_all nospcrlf s)"

definition withinLimits :: "Msg \<Rightarrow> bool" where
  "withinLimits m =
     (list_all nospcrlf (Origin m) \<and> CHR ''!'' \<notin> set (Origin m)
      \<and> list_all nospcrlf (User m) \<and> CHR ''@'' \<notin> set (User m)
      \<and> list_all nospcrlf (Host m)
      \<and> middleOK (Cmd m)
      \<and> list_all middleOK (butlast (Args m))
      \<and> list_all (list_all payloadByte) (Args m)
      \<and> length (rawCandidate m) \<le> 510)"

text \<open>
  The text that the loop of RawString appends for a list of arguments, and the prefix
  that RawString writes before the command, in closed form.
\<close>

fun serArgs :: "string list \<Rightarrow> string" where
  "serArgs [] = []"
| "serArgs [a] = '' :'' @ a"
| "serArgs (a # b # as) = '' '' @ a @ serArgs (b # as)"

definition serPrefix :: "Msg \<Rightarrow> string" where
  "serPrefix m =
     (if Origin m \<noteq> [] then
        '':'' @ Origin m @ (if User m \<noteq> [] then ''!'' @ User m @ ''@'' @ Host m else []) @ '' ''
      else [])"

section \<open>Unfolding the loops on a reader written out\<close>

lemma ReadByte_Nil [simp]:
  "ReadByte \<lparr>pending = [], ending = e\<rparr> = (Inl e, \<lparr>pending = [], ending = e\<rparr>)"
  by (simp add: ReadByte_def)

lemma ReadByte_Cons [simp]:
  "ReadByte \<lparr>pending = c # cs, ending = e\<rparr> = (Inr c, \<lparr>pending = cs, ending = e\<rparr>)"
  by (simp add: ReadByte_def)

lemma readMsgDataLoop_Nil:
  "readMsgDataLoop msg \<lparr>pending = [], ending = e\<rparr> =
     (if e = EOF \<and> msg \<noteq> [] then (Inl (unexpected ''end of file''), \<lparr>pending = [], ending = e\<rparr>)
      else (Inl e, \<lparr>pending = [], ending = e\<rparr>))"
  by (subst readMsgDataLoop.simps) simp

lemma readMsgDataLoop_Cons:
  "readMsgDataLoop msg \<lparr>pending = c # cs, ending = e\<rparr> =
     (if c = NUL then (Inl (unexpected ''null''), \<lparr>pending = cs, ending = e\<rparr>)
      else if c = LF then readMsgDataLoop msg \<lparr>pending = cs, ending = e\<rparr>
      else if c = CR then
        (case cs of
           [] \<Rightarrow> (Inl (if e = EOF then unexpected ''end of file'' else e),
                  \<lparr>pending = [], ending = e\<rparr>)
         | c2 # cs2 \<Rightarrow>
             (if c2 \<noteq> LF then (Inl (unexpected ''carrage return''), \<lparr>pending = cs2, ending = e\<rparr>)
              else if msg = [] then readMsgDataLoop msg \<lparr>pending = cs2, ending = e\<rparr>
              else (Inr msg, \<lparr>pending = cs2, ending = e\<rparr>)))
      else if 510 \<le> length msg then
        (case junk \<lparr>pending = cs, ending = e\<rparr> of
           ((n, _), r2) \<Rightarrow> (Inl (MsgTooLong (take (length msg - 1) msg) (n + 1)), r2))
      else readMsgDataLoop (msg @ [c]) \<lparr>pending = cs, ending = e\<rparr>)"
  by (subst readMsgDataLoop.simps) (simp add: MaxMsgLength_def split: list.splits)

lemma junkLoop_Nil:
  "junkLoop lastb n \<lparr>pending = [], ending = e\<rparr> = ((n, Some e), \<lparr>pending = [], ending = e\<rparr>)"
  by (subst junkLoop.simps) simp

lemma junkLoop_Cons:
  "junkLoop lastb n \<lparr>pending = c # cs, ending = e\<rparr> =
     (if lastb = CR \<and> c = LF then ((n, None), \<lparr>pending = cs, ending = e\<rparr>)
      else junkLoop c (n + 1) \<lparr>pending = cs, ending = e\<rparr>)"
  by (subst junkLoop.simps) (auto simp: MsgMarker_def Let_def)

section \<open>The codec on the scenarios of the specification\<close>

lemma argsLoop_colon: "argsLoop args (COLON # rest) = args @ [rest]"
  by (subst argsLoop.simps) simp

lemma argsLoop_Nil: "argsLoop args [] = args"
  by (subst argsLoop.simps) simp

text \<open>
  C7. Parsing \<open>JOIN #test54321 :foo bar\<close> gives the arguments \<open>#test54321\<close> and
  \<open>foo bar\<close>; parsing \<open>JOIN #test54321 ::foo bar\<close> gives \<open>#test54321\<close> and
  \<open>:foo bar\<close>. In general, when the text that remains starts with a colon, the
  argument loop appends everything after that first colon as one last argument.
\<close>

theorem ParseMsg_trailing_argument:
  "ParseMsg ''JOIN #test54321 :foo bar'' =
     Inr \<lparr>Raw = ''JOIN #test54321 :foo bar'', Origin = [], User = [], Host = [],
          Cmd = ''JOIN'', Args = [''#test54321'', ''foo bar'']\<rparr>
   \<and> ParseMsg ''JOIN #test54321 ::foo bar'' =
     Inr \<lparr>Raw = ''JOIN #test54321 ::foo bar'', Origin = [], User = [], Host = [],
          Cmd = ''JOIN'', Args = [''#test54321'', '':foo bar'']\<rparr>
   \<and> argsLoop args (COLON # rest) = args @ [rest]"
proof -
  have a: "ParseMsg ''JOIN #test54321 :foo bar'' =
     Inr \<lparr>Raw = ''JOIN #test54321 :foo bar'', Origin = [], User = [], Host = [],
          Cmd = ''JOIN'', Args = [''#test54321'', ''foo bar'']\<rparr>"
    by code_simp
  have b: "ParseMsg ''JOIN #test54321 ::foo bar'' =
     Inr \<lparr>Raw = ''JOIN #test54321 ::foo bar'', Origin = [], User = [], Host = [],
          Cmd = ''JOIN'', Args = [''#test54321'', '':foo bar'']\<rparr>"
    by code_simp
  from a b argsLoop_colon show ?thesis by blast
qed

text \<open>
  C2, at the empty string. \<open>ParseMsg("")\<close> evaluates \<open>data[0]\<close> on a string of
  length 0: the call does not return a message, it panics.
\<close>

theorem ParseMsg_empty_panics: "ParseMsg [] = Inl IndexOutOfRange"
  by (simp add: ParseMsg_def)

text \<open>On every other string ParseMsg returns a message, whose \<open>Raw\<close> is the input.\<close>

lemma ParseMsg_nonempty_returns:
  "data \<noteq> [] \<Longrightarrow> \<exists>m. ParseMsg data = Inr m \<and> Raw m = data"
  by (simp add: ParseMsg_def Let_def zeroMsg_def split: prod.splits)

section \<open>The framer on the scenarios of the specification\<close>

text \<open>
  C8. On the stream \<open>a CR CR LF\<close> the framer fails with the error for a bare carriage
  return (spelled \<open>carrage return\<close> in the source); on \<open>hello NUL CR LF\<close> with the
  error for an embedded NUL; on the stream \<open>a\<close> that ends without a terminator with
  the error for an unexpected end of file.
\<close>

theorem readMsgData_malformed_streams:
  "readMsgData \<lparr>pending = [CHR ''a'', CR, CR, LF], ending = EOF\<rparr> =
     (Inl (ErrorString ''unexpected carrage return in message stream''),
      \<lparr>pending = [LF], ending = EOF\<rparr>)
   \<and> readMsgData \<lparr>pending = ''hello'' @ [NUL, CR, LF], ending = EOF\<rparr> =
     (Inl (ErrorString ''unexpected null in message stream''),
      \<lparr>pending = [CR, LF], ending = EOF\<rparr>)
   \<and> readMsgData \<lparr>pending = ''a'', ending = EOF\<rparr> =
     (Inl (ErrorString ''unexpected end of file in message stream''),
      \<lparr>pending = [], ending = EOF\<rparr>)"
  by (simp add: readMsgData_def readMsgDataLoop_Cons readMsgDataLoop_Nil unexpected_def)

section \<open>Properties of the framer\<close>

lemma readMsgDataLoop_invariant:
  "readMsgDataLoop msg \<lparr>pending = p, ending = e\<rparr> = (Inr s, r') \<Longrightarrow>
   length msg \<le> 510 \<Longrightarrow> list_all payloadByte msg \<Longrightarrow>
   s \<noteq> [] \<and> length s \<le> 510 \<and> list_all payloadByte s"
proof (induction p arbitrary: msg rule: length_induct)
  case (1 p)
  show ?case
  proof (cases p)
    case Nil
    with "1.prems" show ?thesis
      by (simp add: readMsgDataLoop_Nil split: if_splits)
  next
    case (Cons c cs)
    note IH = "1.IH" [rule_format]
    show ?thesis
    proof (cases "c = LF")
      case True
      with Cons "1.prems" have "readMsgDataLoop msg \<lparr>pending = cs, ending = e\<rparr> = (Inr s, r')"
        by (simp add: readMsgDataLoop_Cons)
      with IH [of cs msg] Cons "1.prems" show ?thesis by simp
    next
      case notLF: False
      show ?thesis
      proof (cases "c = CR")
        case True
        show ?thesis
        proof (cases cs)
          case Nil
          with True Cons "1.prems" show ?thesis
            by (simp add: readMsgDataLoop_Cons)
        next
          case (Cons c2 cs2)
          show ?thesis
          proof (cases "msg = []")
            case True
            with \<open>c = CR\<close> \<open>p = c # cs\<close> Cons "1.prems"
            have "readMsgDataLoop msg \<lparr>pending = cs2, ending = e\<rparr> = (Inr s, r')"
              by (simp add: readMsgDataLoop_Cons split: if_splits)
            with IH [of cs2 msg] \<open>p = c # cs\<close> Cons "1.prems" show ?thesis by simp
          next
            case False
            with \<open>c = CR\<close> \<open>p = c # cs\<close> Cons "1.prems" show ?thesis
              by (simp add: readMsgDataLoop_Cons split: if_splits)
          qed
        qed
      next
        case notCR: False
        show ?thesis
        proof (cases "c = NUL \<or> 510 \<le> length msg")
          case True
          with notLF notCR Cons "1.prems" show ?thesis
            by (auto simp: readMsgDataLoop_Cons split: if_splits prod.splits)
        next
          case False
          with notLF notCR Cons "1.prems"
          have "readMsgDataLoop (msg @ [c]) \<lparr>pending = cs, ending = e\<rparr> = (Inr s, r')"
            by (simp add: readMsgDataLoop_Cons)
          moreover from False notLF notCR have "payloadByte c"
            by (simp add: payloadByte_def)
          with False "1.prems"
          have "length (msg @ [c]) \<le> 510" "list_all payloadByte (msg @ [c])"
            by simp_all
          ultimately show ?thesis
            using IH [of cs "msg @ [c]"] Cons by simp
        qed
      qed
    qed
  qed
qed

lemma Reader_cases: "\<exists>p e. r = \<lparr>pending = p, ending = e\<rparr>"
  by (cases r) simp

text \<open>
  C10. Every line that readMsgData returns without error is non-empty, is at most 510
  bytes long and contains no NUL, CR or LF byte.
\<close>

theorem readMsgData_line_invariant:
  assumes "readMsgData r = (Inr s, r')"
  shows "s \<noteq> [] \<and> length s \<le> 510 \<and> NUL \<notin> set s \<and> CR \<notin> set s \<and> LF \<notin> set s"
proof -
  obtain p e where r: "r = \<lparr>pending = p, ending = e\<rparr>"
    using Reader_cases by blast
  from assms r have "s \<noteq> [] \<and> length s \<le> 510 \<and> list_all payloadByte s"
    using readMsgDataLoop_invariant [of "[]" p e s r']
    by (simp add: readMsgData_def)
  then show ?thesis
    by (auto simp: list_all_iff payloadByte_def)
qed

text \<open>A stream with an empty line and a bare LF before the line \<open>hi\<close>.\<close>

theorem readMsgData_line_invariant_witness:
  "readMsgData \<lparr>pending = [CR, LF, LF] @ ''hi'' @ [CR, LF], ending = EOF\<rparr> =
     (Inr ''hi'', \<lparr>pending = [], ending = EOF\<rparr>)
   \<and> ''hi'' \<noteq> [] \<and> length ''hi'' \<le> 510
   \<and> NUL \<notin> set ''hi'' \<and> CR \<notin> set ''hi'' \<and> LF \<notin> set ''hi''"
proof -
  have h: "readMsgData \<lparr>pending = [CR, LF, LF] @ ''hi'' @ [CR, LF], ending = EOF\<rparr> =
     (Inr ''hi'', \<lparr>pending = [], ending = EOF\<rparr>)"
    by (simp add: readMsgData_def readMsgDataLoop_Cons)
  from readMsgData_line_invariant [OF h] h show ?thesis by simp
qed

lemma readMsgDataLoop_payload:
  "list_all payloadByte p \<Longrightarrow> length msg + length p \<le> 510 \<Longrightarrow>
   readMsgDataLoop msg \<lparr>pending = p @ rest, ending = e\<rparr> =
   readMsgDataLoop (msg @ p) \<lparr>pending = rest, ending = e\<rparr>"
proof (induction p arbitrary: msg)
  case Nil
  then show ?case by simp
next
  case (Cons c p)
  from Cons.prems have "payloadByte c" and len: "length msg < 510"
    by simp_all
  then have c: "c \<noteq> NUL" "c \<noteq> CR" "c \<noteq> LF"
    by (simp_all add: payloadByte_def)
  with len have "readMsgDataLoop msg \<lparr>pending = (c # p) @ rest, ending = e\<rparr> =
     readMsgDataLoop (msg @ [c]) \<lparr>pending = p @ rest, ending = e\<rparr>"
    by (simp add: readMsgDataLoop_Cons)
  also from Cons.prems have "\<dots> = readMsgDataLoop ((msg @ [c]) @ p) \<lparr>pending = rest, ending = e\<rparr>"
    by (intro Cons.IH) simp_all
  finally show ?case by simp
qed

lemma readMsgData_line:
  assumes "wfLine l"
  shows "readMsgData \<lparr>pending = l @ MsgMarker @ rest, ending = e\<rparr> =
         (Inr l, \<lparr>pending = rest, ending = e\<rparr>)"
proof -
  from assms have "readMsgDataLoop [] \<lparr>pending = l @ (MsgMarker @ rest), ending = e\<rparr> =
      readMsgDataLoop ([] @ l) \<lparr>pending = MsgMarker @ rest, ending = e\<rparr>"
    by (intro readMsgDataLoop_payload) (simp_all add: wfLine_def)
  with assms show ?thesis
    by (simp add: readMsgData_def MsgMarker_def readMsgDataLoop_Cons wfLine_def)
qed

lemma readMsgData_skip_empty:
  "readMsgData \<lparr>pending = MsgMarker @ rest, ending = e\<rparr> =
   readMsgData \<lparr>pending = rest, ending = e\<rparr>"
  by (simp add: readMsgData_def MsgMarker_def readMsgDataLoop_Cons)

lemma readMsgData_skip_LF:
  "readMsgData \<lparr>pending = LF # rest, ending = e\<rparr> =
   readMsgData \<lparr>pending = rest, ending = e\<rparr>"
  by (simp add: readMsgData_def readMsgDataLoop_Cons)

lemma readMsgData_end:
  "readMsgData \<lparr>pending = [], ending = EOF\<rparr> = (Inl EOF, \<lparr>pending = [], ending = EOF\<rparr>)"
  by (simp add: readMsgData_def readMsgDataLoop_Nil)

text \<open>
  C4. On a stream of well-formed lines, each followed by CR LF, with empty lines and
  bare LF bytes between them and the end of the stream after them, repeated calls of
  readMsgData return exactly the lines, in the order of the stream, and the next call
  returns \<open>io.EOF\<close>.
\<close>

theorem readCalls_conservation:
  assumes "list_all wfLine (linesOf items)"
  shows "readCalls (Suc (length (linesOf items))) \<lparr>pending = encodeItems items, ending = EOF\<rparr> =
         (map Inr (linesOf items) @ [Inl EOF], \<lparr>pending = [], ending = EOF\<rparr>)"
  using assms
proof (induction items rule: linesOf.induct)
  case 1
  show ?case by (simp add: encodeItems_def readMsgData_end)
next
  case (2 l items)
  then have "wfLine l" by simp
  then have "readMsgData \<lparr>pending = l @ MsgMarker @ encodeItems items, ending = EOF\<rparr> =
         (Inr l, \<lparr>pending = encodeItems items, ending = EOF\<rparr>)"
    by (rule readMsgData_line)
  with 2 show ?case by (simp add: encodeItems_def)
next
  case (3 items)
  then show ?case
    by (simp add: encodeItems_def readMsgData_skip_empty)
next
  case (4 items)
  then show ?case
    by (simp add: encodeItems_def readMsgData_skip_LF)
qed


text \<open>Two lines between bare LFs and around an empty line.\<close>

theorem readCalls_conservation_witness:
  "list_all wfLine (linesOf [BareLF, Line ''NICK a'', EmptyLine, Line ''b'', BareLF])
   \<and> readCalls (Suc (Suc (Suc 0)))
       \<lparr>pending = encodeItems [BareLF, Line ''NICK a'', EmptyLine, Line ''b'', BareLF],
        ending = EOF\<rparr> =
     ([Inr ''NICK a'', Inr ''b'', Inl EOF], \<lparr>pending = [], ending = EOF\<rparr>)"
proof -
  have h: "list_all wfLine (linesOf [BareLF, Line ''NICK a'', EmptyLine, Line ''b'', BareLF])"
    by (simp add: wfLine_def payloadByte_def)
  from readCalls_conservation [OF h] h show ?thesis by simp
qed

lemma junkLoop_to_marker:
  "CR \<notin> set q \<Longrightarrow> lastb \<noteq> CR \<Longrightarrow>
   junkLoop lastb n \<lparr>pending = q @ MsgMarker @ rest, ending = e\<rparr> =
   ((n + int (length q) + 1, None), \<lparr>pending = rest, ending = e\<rparr>)"
proof (induction q arbitrary: lastb n)
  case Nil
  then show ?case by (simp add: MsgMarker_def junkLoop_Cons)
next
  case (Cons c q)
  then have "c \<noteq> CR" by auto
  with Cons show ?case by (simp add: junkLoop_Cons)
qed

lemma bytesBeforeMarker_payload:
  "CR \<notin> set q \<Longrightarrow> bytesBeforeMarker (q @ MsgMarker @ rest) = length q"
proof (induction q)
  case Nil
  then show ?case by (simp add: MsgMarker_def)
next
  case (Cons c q)
  then have "c \<noteq> CR" by auto
  with Cons show ?case by (cases q) (simp_all add: MsgMarker_def)
qed

lemma payload_no_CR: "list_all payloadByte p \<Longrightarrow> CR \<notin> set p"
  by (auto simp: list_all_iff payloadByte_def)

lemma readMsgData_too_long:
  assumes pay: "list_all payloadByte p" and len: "511 \<le> length p"
  shows "readMsgData \<lparr>pending = p @ MsgMarker @ rest, ending = e\<rparr> =
         (Inl (MsgTooLong (take 509 p) (int (length p) - 509)), \<lparr>pending = rest, ending = e\<rparr>)"
proof -
  define a where "a = take 510 p"
  define c where "c = p ! 510"
  define q where "q = drop 511 p"
  from len have p: "p = a @ c # q"
    using id_take_nth_drop [of 510 p] by (simp add: a_def c_def q_def)
  from len have la: "length a = 510" by (simp add: a_def)
  from pay have "list_all payloadByte (a @ c # q)"
    by (simp only: p [symmetric])
  then have pa: "list_all payloadByte a" and pc: "payloadByte c"
    and pq: "list_all payloadByte q"
    by simp_all
  have "readMsgDataLoop [] \<lparr>pending = a @ (c # q @ MsgMarker @ rest), ending = e\<rparr> =
        readMsgDataLoop ([] @ a) \<lparr>pending = c # q @ MsgMarker @ rest, ending = e\<rparr>"
    using pa la by (intro readMsgDataLoop_payload) simp_all
  moreover have "junk \<lparr>pending = q @ MsgMarker @ rest, ending = e\<rparr> =
        ((int (length q) + 1, None), \<lparr>pending = rest, ending = e\<rparr>)"
    using junkLoop_to_marker [of q NUL 0 rest e] payload_no_CR [OF pq]
    by (simp add: junk_def)
  moreover have "take 509 p = take 509 a" by (simp add: a_def)
  moreover from p la have "int (length p) - 509 = int (length q) + 1 + 1" by simp
  ultimately show ?thesis
    using pc la by (simp add: readMsgData_def p readMsgDataLoop_Cons payloadByte_def)
qed

text \<open>
  C3. A line of exactly 510 payload bytes followed by CR LF is returned whole. A line of
  511 or more payload bytes followed by CR LF fails with \<open>MsgTooLong\<close>. The text it
  carries is the first 509 payload bytes, one byte less than the 510 bytes buffered at
  the cutoff. The count it carries is one more than the number of bytes discarded before
  the terminator, which are the bytes of the line after the 510 buffered ones; so the
  count is the length of the payload minus 509. The reader is left just after the
  terminator.
\<close>

theorem readMsgData_length_boundary:
  assumes "list_all payloadByte p"
  shows "(length p = 510 \<longrightarrow>
            readMsgData \<lparr>pending = p @ MsgMarker @ rest, ending = e\<rparr> =
              (Inr p, \<lparr>pending = rest, ending = e\<rparr>))
       \<and> (511 \<le> length p \<longrightarrow>
            readMsgData \<lparr>pending = p @ MsgMarker @ rest, ending = e\<rparr> =
              (Inl (MsgTooLong (take 509 p)
                     (int (bytesBeforeMarker (drop 510 p @ MsgMarker @ rest)) + 1)),
               \<lparr>pending = rest, ending = e\<rparr>)
            \<and> length (take 509 p) = 509
            \<and> int (bytesBeforeMarker (drop 510 p @ MsgMarker @ rest)) + 1 =
                int (length p) - 509)"
proof -
  from assms have "CR \<notin> set (drop 510 p)"
    using payload_no_CR [of p] by (auto dest: in_set_dropD)
  then have cnt: "bytesBeforeMarker (drop 510 p @ MsgMarker @ rest) = length p - 510"
    by (simp add: bytesBeforeMarker_payload)
  show ?thesis
  proof (intro conjI impI)
    assume "length p = 510"
    with assms have "wfLine p" by (auto simp: wfLine_def)
    then show "readMsgData \<lparr>pending = p @ MsgMarker @ rest, ending = e\<rparr> =
                (Inr p, \<lparr>pending = rest, ending = e\<rparr>)"
      by (rule readMsgData_line)
  next
    assume len: "511 \<le> length p"
    with cnt have "int (bytesBeforeMarker (drop 510 p @ MsgMarker @ rest)) + 1 =
        int (length p) - 509"
      by simp
    with readMsgData_too_long [OF assms len, of rest e]
    show "readMsgData \<lparr>pending = p @ MsgMarker @ rest, ending = e\<rparr> =
              (Inl (MsgTooLong (take 509 p)
                     (int (bytesBeforeMarker (drop 510 p @ MsgMarker @ rest)) + 1)),
               \<lparr>pending = rest, ending = e\<rparr>)"
      by simp
  next
    assume "511 \<le> length p"
    then show "length (take 509 p) = 509" by simp
  next
    assume "511 \<le> length p"
    with cnt show "int (bytesBeforeMarker (drop 510 p @ MsgMarker @ rest)) + 1 =
        int (length p) - 509"
      by simp
  qed
qed

lemma payload_replicate_a: "list_all payloadByte (replicate k (CHR ''a''))"
  by (simp add: list_all_iff payloadByte_def)

text \<open>
  The boundary: 510 payload bytes are returned; 511 give the count 2 (one byte
  discarded before the terminator, plus one); 600 give the count 91.
\<close>

theorem readMsgData_length_boundary_witness:
  "readMsgData \<lparr>pending = replicate 510 (CHR ''a'') @ MsgMarker, ending = EOF\<rparr> =
     (Inr (replicate 510 (CHR ''a'')), \<lparr>pending = [], ending = EOF\<rparr>)
   \<and> readMsgData \<lparr>pending = replicate 511 (CHR ''a'') @ MsgMarker, ending = EOF\<rparr> =
     (Inl (MsgTooLong (replicate 509 (CHR ''a'')) 2), \<lparr>pending = [], ending = EOF\<rparr>)
   \<and> readMsgData \<lparr>pending = replicate 600 (CHR ''a'') @ MsgMarker, ending = EOF\<rparr> =
     (Inl (MsgTooLong (replicate 509 (CHR ''a'')) 91), \<lparr>pending = [], ending = EOF\<rparr>)"
  using readMsgData_length_boundary [OF payload_replicate_a, of 510 "[]" EOF]
    readMsgData_length_boundary [OF payload_replicate_a, of 511 "[]" EOF]
    readMsgData_length_boundary [OF payload_replicate_a, of 600 "[]" EOF]
  by simp

text \<open>
  The count that junk itself returns when it finds the terminator is the number of
  bytes before the terminator plus one: it counts the CR.
\<close>

lemma junk_count:
  "CR \<notin> set q \<Longrightarrow>
   junk \<lparr>pending = q @ MsgMarker @ rest, ending = e\<rparr> =
     ((int (bytesBeforeMarker (q @ MsgMarker @ rest)) + 1, None),
      \<lparr>pending = rest, ending = e\<rparr>)"
  using junkLoop_to_marker [of q NUL 0 rest e]
  by (simp add: junk_def bytesBeforeMarker_payload)

section \<open>Properties of registration\<close>

lemma CmdNames_registrationErrors:
  "map CmdNames registrationErrors =
     [''ERR_NONICKNAMEGIVEN'', ''ERR_ERRONEUSNICKNAME'', ''ERR_NICKNAMEINUSE'',
      ''ERR_NICKCOLLISION'', ''ERR_UNAVAILRESOURCE'', ''ERR_RESTRICTED'',
      ''ERR_NEEDMOREPARAMS'', ''ERR_ALREADYREGISTRED'']"
  by code_simp


lemma registerLoop_Cons:
  "In c = msg # rest \<Longrightarrow>
   registerLoop c =
     (if Cmd msg \<in> set registrationErrors then
        (if length (Args msg) > 0
         then (Some (ErrorString (Args msg ! (length (Args msg) - 1))), c\<lparr>In := rest\<rparr>)
         else (Some (ErrorString (CmdNames (Cmd msg))), c\<lparr>In := rest\<rparr>))
      else if Cmd msg = RPL_WELCOME then (None, c\<lparr>In := rest, Server := Origin msg\<rparr>)
      else if Cmd msg = PING then
        registerLoop (send (c\<lparr>In := rest\<rparr>) (zeroMsg\<lparr>Cmd := PONG, Args := Args msg\<rparr>))
      else registerLoop (c\<lparr>In := rest\<rparr>))"
  by (subst registerLoop.simps) (simp add: registrationErrors_def Let_def)

lemma registerLoop_error:
  assumes "In c = pre @ m # post"
    and "\<forall>x \<in> set pre. Cmd x \<notin> set registrationErrors \<and> Cmd x \<noteq> RPL_WELCOME"
    and "Cmd m \<in> set registrationErrors"
  shows "fst (registerLoop c) =
           Some (ErrorString (if Args m = [] then CmdNames (Cmd m) else last (Args m)))
       \<and> Server (snd (registerLoop c)) = Server c
       \<and> In (snd (registerLoop c)) = post"
  using assms
proof (induction pre arbitrary: c)
  case Nil
  then have "In c = m # post" by simp
  from registerLoop_Cons [OF this] Nil.prems(3) show ?case
    by (simp add: last_conv_nth)
next
  case (Cons x pre)
  from Cons.prems have x: "Cmd x \<notin> set registrationErrors" "Cmd x \<noteq> RPL_WELCOME"
    and pre: "\<forall>x \<in> set pre. Cmd x \<notin> set registrationErrors \<and> Cmd x \<noteq> RPL_WELCOME"
    by simp_all
  from Cons.prems have inc: "In c = x # (pre @ m # post)" by simp
  show ?case
  proof (cases "Cmd x = PING")
    case True
    define c' where "c' = send (c\<lparr>In := pre @ m # post\<rparr>) (zeroMsg\<lparr>Cmd := PONG, Args := Args x\<rparr>)"
    have "In c' = pre @ m # post" "Server c' = Server c"
      by (simp_all add: c'_def send_def)
    moreover from registerLoop_Cons [OF inc] x True have "registerLoop c = registerLoop c'"
      by (simp add: c'_def)
    ultimately show ?thesis
      using Cons.IH [of c'] pre Cons.prems(3) by simp
  next
    case False
    define c' where "c' = c\<lparr>In := pre @ m # post\<rparr>"
    have "In c' = pre @ m # post" "Server c' = Server c"
      by (simp_all add: c'_def)
    moreover from registerLoop_Cons [OF inc] x False have "registerLoop c = registerLoop c'"
      by (simp add: c'_def)
    ultimately show ?thesis
      using Cons.IH [of c'] pre Cons.prems(3) by simp
  qed
qed

lemma CmdNames_of_error:
  "k \<in> set registrationErrors \<Longrightarrow>
   (k, CmdNames k) \<in> set
     [(''431'', ''ERR_NONICKNAMEGIVEN''), (''432'', ''ERR_ERRONEUSNICKNAME''),
      (''433'', ''ERR_NICKNAMEINUSE''), (''436'', ''ERR_NICKCOLLISION''),
      (''437'', ''ERR_UNAVAILRESOURCE''), (''484'', ''ERR_RESTRICTED''),
      (''461'', ''ERR_NEEDMOREPARAMS''), (''462'', ''ERR_ALREADYREGISTRED'')]"
  using CmdNames_registrationErrors by (auto simp: registrationErrors_def)

text \<open>
  C9. If the messages that arrive during registration hold, before any welcome reply,
  a message whose command is one of the eight error numerics, then register returns an
  error whose text is the last argument of that message, or the name of the numeric in
  \<open>CmdNames\<close> when the message has no argument; and \<open>Server\<close> is left as it was.
\<close>

theorem register_fails_on_error_numeric:
  assumes "In c = pre @ m # post"
    and "\<forall>x \<in> set pre. Cmd x \<notin> set registrationErrors \<and> Cmd x \<noteq> RPL_WELCOME"
    and "Cmd m \<in> set registrationErrors"
  shows "fst (register c nick fullname pass) =
           Some (ErrorString (if Args m = [] then CmdNames (Cmd m) else last (Args m)))
       \<and> (Cmd m, CmdNames (Cmd m)) \<in> set
           [(''431'', ''ERR_NONICKNAMEGIVEN''), (''432'', ''ERR_ERRONEUSNICKNAME''),
            (''433'', ''ERR_NICKNAMEINUSE''), (''436'', ''ERR_NICKCOLLISION''),
            (''437'', ''ERR_UNAVAILRESOURCE''), (''484'', ''ERR_RESTRICTED''),
            (''461'', ''ERR_NEEDMOREPARAMS''), (''462'', ''ERR_ALREADYREGISTRED'')]
       \<and> Server (snd (register c nick fullname pass)) = Server c"
proof -
  define c1 where "c1 = (if pass \<noteq> [] then send c (zeroMsg\<lparr>Cmd := ''PASS'', Args := [pass]\<rparr>) else c)"
  define c2 where "c2 = send c1 (zeroMsg\<lparr>Cmd := ''NICK'', Args := [nick]\<rparr>)"
  define c3 where "c3 = send c2 (zeroMsg\<lparr>Cmd := ''USER'', Args := [nick, ''0'', ''*'', fullname]\<rparr>)"
  have r: "register c nick fullname pass = registerLoop c3"
    by (simp add: register_def c1_def c2_def c3_def Let_def)
  have "In c3 = In c" "Server c3 = Server c"
    by (simp_all add: c1_def c2_def c3_def send_def)
  with assms registerLoop_error [of c3 pre m post] CmdNames_of_error [of "Cmd m"] r
  show ?thesis by simp
qed

text \<open>Scenario D: the nickname is in use; a notice and a PING come first.\<close>

theorem register_fails_on_error_numeric_witness:
  "fst (register
      \<lparr>Server = [],
       In = [zeroMsg\<lparr>Cmd := ''NOTICE'', Args := [''*'', ''Looking up your hostname'']\<rparr>,
             zeroMsg\<lparr>Cmd := PING, Args := [''12345'']\<rparr>,
             zeroMsg\<lparr>Origin := ''irc.example.org'', Cmd := ERR_NICKNAMEINUSE,
                     Args := [''*'', ''nick'', ''Nickname is already in use.'']\<rparr>,
             zeroMsg\<lparr>Origin := ''irc.example.org'', Cmd := RPL_WELCOME\<rparr>],
       Out = []\<rparr> ''nick'' ''Full Name'' []) =
     Some (ErrorString ''Nickname is already in use.'')
   \<and> Server (snd (register
      \<lparr>Server = [],
       In = [zeroMsg\<lparr>Cmd := ''NOTICE'', Args := [''*'', ''Looking up your hostname'']\<rparr>,
             zeroMsg\<lparr>Cmd := PING, Args := [''12345'']\<rparr>,
             zeroMsg\<lparr>Origin := ''irc.example.org'', Cmd := ERR_NICKNAMEINUSE,
                     Args := [''*'', ''nick'', ''Nickname is already in use.'']\<rparr>,
             zeroMsg\<lparr>Origin := ''irc.example.org'', Cmd := RPL_WELCOME\<rparr>],
       Out = []\<rparr> ''nick'' ''Full Name'' [])) = []"
  using register_fails_on_error_numeric
    [of "\<lparr>Server = [],
       In = [zeroMsg\<lparr>Cmd := ''NOTICE'', Args := [''*'', ''Looking up your hostname'']\<rparr>,
             zeroMsg\<lparr>Cmd := PING, Args := [''12345'']\<rparr>,
             zeroMsg\<lparr>Origin := ''irc.example.org'', Cmd := ERR_NICKNAMEINUSE,
                     Args := [''*'', ''nick'', ''Nickname is already in use.'']\<rparr>,
             zeroMsg\<lparr>Origin := ''irc.example.org'', Cmd := RPL_WELCOME\<rparr>],
       Out = []\<rparr>"
      "[zeroMsg\<lparr>Cmd := ''NOTICE'', Args := [''*'', ''Looking up your hostname'']\<rparr>,
        zeroMsg\<lparr>Cmd := PING, Args := [''12345'']\<rparr>]"
      "zeroMsg\<lparr>Origin := ''irc.example.org'', Cmd := ERR_NICKNAMEINUSE,
                     Args := [''*'', ''nick'', ''Nickname is already in use.'']\<rparr>"
      "[zeroMsg\<lparr>Origin := ''irc.example.org'', Cmd := RPL_WELCOME\<rparr>]"
      "''nick''" "''Full Name''" "[]"]
  by (simp add: registrationErrors_def zeroMsg_def)

section \<open>Properties of serialization\<close>

lemma appendArgs_serArgs:
  "int (length as) + i = n \<Longrightarrow> appendArgs raw n i as = raw @ serArgs as"
proof (induction as arbitrary: raw i)
  case Nil
  then show ?case by simp
next
  case (Cons a as)
  then have "appendArgs (if i = n - 1 then raw @ '' :'' @ a else raw @ '' '' @ a) n (i + 1) as =
      (if i = n - 1 then raw @ '' :'' @ a else raw @ '' '' @ a) @ serArgs as"
    by (intro Cons.IH) simp
  moreover from Cons.prems have "i = n - 1 \<longleftrightarrow> as = []" by auto
  ultimately show ?case by (cases as) simp_all
qed

lemma rawCandidate_built:
  "Raw m = [] \<Longrightarrow> rawCandidate m = serPrefix m @ Cmd m @ serArgs (Args m)"
  by (simp add: rawCandidate_def serPrefix_def Let_def appendArgs_serArgs)

lemma TrimRight_LF:
  "\<exists>k. s = TrimRight s [LF] @ replicate k LF
       \<and> (TrimRight s [LF] = [] \<or> last (TrimRight s [LF]) \<noteq> LF)"
proof -
  define t where "t = takeWhile (\<lambda>c. c = LF) (rev s)"
  define d where "d = dropWhile (\<lambda>c. c = LF) (rev s)"
  have "rev s = t @ d" by (simp add: t_def d_def)
  then have "s = rev d @ rev t" by (metis rev_append rev_rev_ident)
  moreover have "set t \<subseteq> {LF}"
    using set_takeWhileD [of _ "\<lambda>c. c = LF" "rev s"] by (auto simp: t_def)
  then have "rev t = replicate (length t) LF"
    by (metis length_rev replicate_eqI set_rev singletonD subsetD)
  moreover have "d = [] \<or> hd d \<noteq> LF"
    using hd_dropWhile [of "\<lambda>c. c = LF" "rev s"] by (auto simp: d_def)
  then have "rev d = [] \<or> last (rev d) \<noteq> LF"
    by (auto simp: last_rev)
  moreover have "TrimRight s [LF] = rev d"
    by (simp add: TrimRight_def d_def)
  ultimately show ?thesis by metis
qed

text \<open>
  C5. RawString fails exactly when the candidate line (\<open>Raw\<close> when it is set, the
  line built from the prefix, the command and the arguments otherwise) is longer than
  510 bytes, that is 512 less the two bytes of the terminator; the error \<open>MsgTooLong\<close>
  then holds the candidate and the number of its bytes beyond 510. Otherwise the result
  is the candidate without its trailing LFs.
\<close>

theorem RawString_too_long_iff:
  "(isl (RawString m) = (510 < length (rawCandidate m)))
   \<and> RawString m =
       (if 510 < length (rawCandidate m)
        then Inl (MsgTooLong (rawCandidate m) (int (length (rawCandidate m)) - 510))
        else Inr (TrimRight (rawCandidate m) [LF]))
   \<and> rawCandidate m =
       (if Raw m \<noteq> [] then Raw m else serPrefix m @ Cmd m @ serArgs (Args m))
   \<and> MaxMsgLength - int (length MsgMarker) = 510"
proof -
  have "rawCandidate m =
       (if Raw m \<noteq> [] then Raw m else serPrefix m @ Cmd m @ serArgs (Args m))"
    using rawCandidate_built [of m] by (simp add: rawCandidate_def)
  then show ?thesis
    by (simp add: RawString_def MaxMsgLength_def MsgMarker_def Let_def)
qed

text \<open>
  C6, as amended. When \<open>Raw\<close> is not empty and at most 510 bytes long, RawString
  returns \<open>Raw\<close> without its trailing LF bytes: \<open>Raw\<close> is the result followed by LFs
  only, and the result does not end with LF. When \<open>Raw\<close> is longer than 510 bytes
  RawString fails with \<open>MsgTooLong\<close>.
\<close>

theorem RawString_of_Raw:
  assumes "Raw m \<noteq> []"
  shows "(length (Raw m) \<le> 510 \<longrightarrow>
            RawString m = Inr (TrimRight (Raw m) [LF])
            \<and> (\<exists>k. Raw m = TrimRight (Raw m) [LF] @ replicate k LF)
            \<and> (TrimRight (Raw m) [LF] = [] \<or> last (TrimRight (Raw m) [LF]) \<noteq> LF))
       \<and> (510 < length (Raw m) \<longrightarrow>
            RawString m = Inl (MsgTooLong (Raw m) (int (length (Raw m)) - 510)))"
  using assms TrimRight_LF [of "Raw m"]
  by (auto simp: RawString_def rawCandidate_def MaxMsgLength_def MsgMarker_def Let_def)

text \<open>A raw line with its newline, and a raw line of 512 bytes.\<close>

theorem RawString_of_Raw_witness:
  "RawString (zeroMsg\<lparr>Raw := ''PING x'' @ [LF], Cmd := ''IGNORED''\<rparr>) = Inr ''PING x''
   \<and> RawString (zeroMsg\<lparr>Raw := replicate 512 (CHR ''a'')\<rparr>) =
       Inl (MsgTooLong (replicate 512 (CHR ''a'')) 2)"
  using RawString_of_Raw [of "zeroMsg\<lparr>Raw := ''PING x'' @ [LF], Cmd := ''IGNORED''\<rparr>"]
    RawString_of_Raw [of "zeroMsg\<lparr>Raw := replicate 512 (CHR ''a'')\<rparr>"]
  by (simp add: zeroMsg_def TrimRight_def)

text \<open>
  C6 as stated fails when \<open>Raw\<close> is 511 bytes long: RawString returns an error, not
  \<open>Raw\<close> without its trailing LFs.
\<close>

theorem RawString_long_Raw_counterexample:
  "Raw (zeroMsg\<lparr>Raw := replicate 511 (CHR ''a'')\<rparr>) \<noteq> []
   \<and> RawString (zeroMsg\<lparr>Raw := replicate 511 (CHR ''a'')\<rparr>) \<noteq>
       Inr (TrimRight (Raw (zeroMsg\<lparr>Raw := replicate 511 (CHR ''a'')\<rparr>)) [LF])"
  by (simp add: RawString_def rawCandidate_def MaxMsgLength_def MsgMarker_def zeroMsg_def)

section \<open>The round trip through RawString and ParseMsg\<close>

lemma IndexRune_absent: "d \<notin> set s \<Longrightarrow> IndexRune s d = - 1"
  by (induction s) (auto simp: Let_def)

lemma IndexRune_first: "d \<notin> set a \<Longrightarrow> IndexRune (a @ d # b) d = int (length a)"
  by (induction a) (auto simp: Let_def)

lemma skipSpaces_drop: "drop (skipSpaces s i) s = dropWhile (\<lambda>c. c = SP) (drop i s)"
proof (induction s i rule: skipSpaces.induct)
  case (1 s i)
  show ?case
  proof (cases "i < length s \<and> s ! i = SP")
    case True
    then have "drop i s = SP # drop (Suc i) s"
      by (metis Cons_nth_drop_Suc)
    with True 1 show ?thesis
      by (simp add: skipSpaces_step)
  next
    case False
    then have "skipSpaces s i = i" by (rule skipSpaces_stop)
    moreover from False have "dropWhile (\<lambda>c. c = SP) (drop i s) = drop i s"
    proof (cases "i < length s")
      case True
      with False have "drop i s = s ! i # drop (Suc i) s" "s ! i \<noteq> SP"
        by (simp_all add: Cons_nth_drop_Suc)
      then show ?thesis by simp
    next
      case False
      then show ?thesis by simp
    qed
    ultimately show ?thesis by simp
  qed
qed

lemma splitString_absent: "d \<notin> set s \<Longrightarrow> splitString s d = (s, [])"
  by (simp add: splitString_def IndexRune_absent)

lemma splitString_SP:
  assumes "SP \<notin> set a"
  shows "splitString (a @ SP # b) SP = (a, dropWhile (\<lambda>c. c = SP) b)"
proof -
  have "drop (skipSpaces (a @ SP # b) (length a)) (a @ SP # b) =
      dropWhile (\<lambda>c. c = SP) (drop (length a) (a @ SP # b))"
    by (rule skipSpaces_drop)
  then have "drop (skipSpaces (a @ SP # b) (length a)) (a @ SP # b) =
      dropWhile (\<lambda>c. c = SP) b"
    by simp
  with assms show ?thesis
    by (simp add: splitString_def IndexRune_first del: drop_append)
qed

lemma splitString_other:
  "d \<noteq> SP \<Longrightarrow> d \<notin> set a \<Longrightarrow> splitString (a @ d # b) d = (a, b)"
  by (simp add: splitString_def IndexRune_first)

lemma serArgs_starts: "args \<noteq> [] \<Longrightarrow> \<exists>t. serArgs args = SP # t"
  by (induction args rule: serArgs.induct) simp_all

lemma splitString_before_args:
  assumes "SP \<notin> set w"
  shows "splitString (w @ serArgs args) SP = (w, dropWhile (\<lambda>c. c = SP) (serArgs args))"
proof (cases "args = []")
  case True
  with assms show ?thesis by (simp add: splitString_absent)
next
  case False
  then obtain t where "serArgs args = SP # t"
    using serArgs_starts by blast
  with assms show ?thesis by (simp add: splitString_SP)
qed

lemma middleOK_D:
  "middleOK s \<Longrightarrow> s \<noteq> [] \<and> hd s \<noteq> COLON \<and> hd s \<noteq> SP \<and> SP \<notin> set s \<and> LF \<notin> set s"
  by (cases s) (auto simp: middleOK_def nospcrlf_def list_all_iff)

lemma argsLoop_word:
  "data \<noteq> [] \<Longrightarrow> hd data \<noteq> COLON \<Longrightarrow>
   argsLoop acc data =
     argsLoop (acc @ [fst (splitString data SP)]) (snd (splitString data SP))"
  by (subst argsLoop.simps) simp

lemma argsLoop_serArgs:
  "list_all middleOK (butlast args) \<Longrightarrow>
   argsLoop acc (dropWhile (\<lambda>c. c = SP) (serArgs args)) = acc @ args"
proof (induction args arbitrary: acc rule: serArgs.induct)
  case 1
  then show ?case by (simp add: argsLoop_Nil)
next
  case (2 a)
  then show ?case by (simp add: argsLoop_colon)
next
  case (3 a b as)
  from "3.prems" have a: "middleOK a" and rest: "list_all middleOK (butlast (b # as))"
    by simp_all
  note ad = middleOK_D [OF a]
  from ad have dw: "dropWhile (\<lambda>c. c = SP) (serArgs (a # b # as)) = a @ serArgs (b # as)"
    by (cases a) simp_all
  from ad have ne: "a @ serArgs (b # as) \<noteq> []" and hd: "hd (a @ serArgs (b # as)) \<noteq> COLON"
    by simp_all
  from ad have sp: "splitString (a @ serArgs (b # as)) SP =
      (a, dropWhile (\<lambda>c. c = SP) (serArgs (b # as)))"
    by (intro splitString_before_args) simp
  have "argsLoop acc (a @ serArgs (b # as)) =
      argsLoop (acc @ [a]) (dropWhile (\<lambda>c. c = SP) (serArgs (b # as)))"
    using argsLoop_word [OF ne hd, of acc] by (simp add: sp)
  also have "\<dots> = (acc @ [a]) @ b # as"
    using rest by (rule "3.IH")
  finally show ?case unfolding dw by simp
qed

lemma ParseMsg_plain:
  "data \<noteq> [] \<Longrightarrow> hd data \<noteq> COLON \<Longrightarrow>
   ParseMsg data =
     Inr \<lparr>Raw = data, Origin = [], User = [], Host = [],
          Cmd = fst (splitString data SP),
          Args = argsLoop [] (snd (splitString data SP))\<rparr>"
  by (simp add: ParseMsg_def zeroMsg_def Let_def split: prod.splits)

lemma ParseMsg_prefixed:
  "ParseMsg (COLON # rest) =
     Inr \<lparr>Raw = COLON # rest,
          Origin = fst (splitString (fst (splitString rest SP)) (CHR ''!'')),
          User = fst (splitString (snd (splitString (fst (splitString rest SP)) (CHR ''!''))) (CHR ''@'')),
          Host = snd (splitString (snd (splitString (fst (splitString rest SP)) (CHR ''!''))) (CHR ''@'')),
          Cmd = fst (splitString (snd (splitString rest SP)) SP),
          Args = argsLoop [] (snd (splitString (snd (splitString rest SP)) SP))\<rparr>"
  by (simp add: ParseMsg_def zeroMsg_def Let_def split: prod.splits)

lemma TrimRight_no_LF: "LF \<notin> set s \<Longrightarrow> TrimRight s [LF] = s"
proof -
  assume "LF \<notin> set s"
  then have "dropWhile (\<lambda>c. c \<in> set [LF]) (rev s) = rev s"
    by (cases "rev s") (auto simp: hd_rev dest: last_in_set)
  then show ?thesis by (simp add: TrimRight_def)
qed

lemma serArgs_set: "set (serArgs args) \<subseteq> {SP, COLON} \<union> \<Union> (set ` set args)"
  by (induction args rule: serArgs.induct) auto


lemma nospcrlf_D: "list_all nospcrlf s \<Longrightarrow> SP \<notin> set s \<and> LF \<notin> set s"
  by (auto simp: list_all_iff nospcrlf_def)

lemma withinLimits_no_LF:
  assumes "Raw m = []" and "withinLimits m"
  shows "LF \<notin> set (rawCandidate m)"
proof -
  from assms(2) have f: "LF \<notin> set (Origin m)" "LF \<notin> set (User m)" "LF \<notin> set (Host m)"
    "LF \<notin> set (Cmd m)"
    by (auto simp: withinLimits_def middleOK_def dest: nospcrlf_D)
  from assms(2) have "\<forall>a \<in> set (Args m). LF \<notin> set a"
    by (auto simp: withinLimits_def list_all_iff payloadByte_def)
  with serArgs_set [of "Args m"] have "LF \<notin> set (serArgs (Args m))"
    by auto
  with f show ?thesis
    by (simp add: rawCandidate_built [OF assms(1)] serPrefix_def)
qed

lemma parse_command_and_args:
  assumes "middleOK w" and "list_all middleOK (butlast args)"
  shows "fst (splitString (w @ serArgs args) SP) = w"
    and "argsLoop [] (snd (splitString (w @ serArgs args) SP)) = args"
proof -
  from middleOK_D [OF assms(1)] have "SP \<notin> set w" by simp
  then have sp: "splitString (w @ serArgs args) SP = (w, dropWhile (\<lambda>c. c = SP) (serArgs args))"
    by (rule splitString_before_args)
  then show "fst (splitString (w @ serArgs args) SP) = w" by simp
  from sp argsLoop_serArgs [OF assms(2), of "[]"]
  show "argsLoop [] (snd (splitString (w @ serArgs args) SP)) = args" by simp
qed

text \<open>
  C1, as amended. Let \<open>m\<close> have an empty \<open>Raw\<close> and fields within the limits of the
  wire grammar. Then RawString returns a line, ParseMsg returns a message for that line,
  and the command, the arguments and the origin of that message are those of \<open>m\<close>. Its
  user is that of \<open>m\<close> when \<open>m\<close> has an origin and is empty otherwise; its host is that
  of \<open>m\<close> when \<open>m\<close> has an origin and a user and is empty otherwise.
\<close>

theorem RawString_ParseMsg_roundtrip:
  assumes raw: "Raw m = []" and lim: "withinLimits m"
  shows "\<exists>s m'. RawString m = Inr s \<and> ParseMsg s = Inr m' \<and> Raw m' = s
           \<and> Cmd m' = Cmd m \<and> Args m' = Args m \<and> Origin m' = Origin m
           \<and> User m' = (if Origin m \<noteq> [] then User m else [])
           \<and> Host m' = (if Origin m \<noteq> [] \<and> User m \<noteq> [] then Host m else [])"
proof -
  define w where "w = Cmd m @ serArgs (Args m)"
  from lim have cmd: "middleOK (Cmd m)" and args: "list_all middleOK (butlast (Args m))"
    and len: "length (rawCandidate m) \<le> 510"
    by (simp_all add: withinLimits_def)
  note cd = middleOK_D [OF cmd]
  have cand: "rawCandidate m = serPrefix m @ w"
    by (simp add: rawCandidate_built [OF raw] w_def)
  from len withinLimits_no_LF [OF raw lim] have ser: "RawString m = Inr (rawCandidate m)"
    by (simp add: RawString_def MaxMsgLength_def MsgMarker_def TrimRight_no_LF)
  from cd have wne: "w \<noteq> []" and whd: "hd w \<noteq> COLON" and wsp: "hd w \<noteq> SP"
    by (simp_all add: w_def)
  note pw = parse_command_and_args [OF cmd args, folded w_def]
  show ?thesis
  proof (cases "Origin m = []")
    case True
    then have "rawCandidate m = w" by (simp add: cand serPrefix_def)
    with ser ParseMsg_plain [OF wne whd] pw True show ?thesis by simp
  next
    case False
    define pfx where
      "pfx = Origin m @ (if User m \<noteq> [] then ''!'' @ User m @ ''@'' @ Host m else [])"
    from False have c: "rawCandidate m = COLON # (pfx @ SP # w)"
      by (simp add: cand serPrefix_def pfx_def)
    from lim have o: "SP \<notin> set (Origin m)" "CHR ''!'' \<notin> set (Origin m)"
      and u: "SP \<notin> set (User m)" "CHR ''@'' \<notin> set (User m)"
      and h: "SP \<notin> set (Host m)"
      by (auto simp: withinLimits_def dest: nospcrlf_D)
    then have "SP \<notin> set pfx" by (simp add: pfx_def)
    then have "splitString (pfx @ SP # w) SP = (pfx, dropWhile (\<lambda>c. c = SP) w)"
      by (rule splitString_SP)
    moreover from wne wsp have "dropWhile (\<lambda>c. c = SP) w = w"
      by (cases w) simp_all
    ultimately have s1: "splitString (pfx @ SP # w) SP = (pfx, w)" by simp
    have s2: "splitString pfx (CHR ''!'') =
        (Origin m, if User m \<noteq> [] then User m @ ''@'' @ Host m else [])"
    proof (cases "User m = []")
      case True
      with o show ?thesis by (simp add: pfx_def splitString_absent)
    next
      case False
      with o splitString_other [of "CHR ''!''" "Origin m" "User m @ ''@'' @ Host m"]
      show ?thesis by (simp add: pfx_def)
    qed
    have s3: "splitString (if User m \<noteq> [] then User m @ ''@'' @ Host m else []) (CHR ''@'') =
        (User m, if User m \<noteq> [] then Host m else [])"
    proof (cases "User m = []")
      case True
      then show ?thesis by (simp add: splitString_absent)
    next
      case False
      with u splitString_other [of "CHR ''@''" "User m" "Host m"]
      show ?thesis by simp
    qed
    from ser c ParseMsg_prefixed [of "pfx @ SP # w"] pw False show ?thesis
      by (simp add: s1 s2 s3)
  qed
qed

text \<open>A message with a full prefix and a last argument that starts with a colon.\<close>

theorem RawString_ParseMsg_roundtrip_witness:
  "Raw (zeroMsg\<lparr>Origin := ''e'', User := ''foo'', Host := ''bar.com'', Cmd := ''JOIN'',
               Args := [''#test54321'', '':foo bar'']\<rparr>) = []
   \<and> withinLimits (zeroMsg\<lparr>Origin := ''e'', User := ''foo'', Host := ''bar.com'',
               Cmd := ''JOIN'', Args := [''#test54321'', '':foo bar'']\<rparr>)
   \<and> RawString (zeroMsg\<lparr>Origin := ''e'', User := ''foo'', Host := ''bar.com'',
               Cmd := ''JOIN'', Args := [''#test54321'', '':foo bar'']\<rparr>) =
       Inr '':e!foo@bar.com JOIN #test54321 ::foo bar''
   \<and> ParseMsg '':e!foo@bar.com JOIN #test54321 ::foo bar'' =
       Inr \<lparr>Raw = '':e!foo@bar.com JOIN #test54321 ::foo bar'', Origin = ''e'',
            User = ''foo'', Host = ''bar.com'', Cmd = ''JOIN'',
            Args = [''#test54321'', '':foo bar'']\<rparr>"
proof -
  define m where "m = zeroMsg\<lparr>Origin := ''e'', User := ''foo'', Host := ''bar.com'',
               Cmd := ''JOIN'', Args := [''#test54321'', '':foo bar'']\<rparr>"
  have r: "Raw m = []" by (simp add: m_def zeroMsg_def)
  have c: "rawCandidate m = '':e!foo@bar.com JOIN #test54321 ::foo bar''"
    by (simp add: m_def zeroMsg_def rawCandidate_def)
  have l: "withinLimits m"
    unfolding withinLimits_def c
    by (simp add: m_def zeroMsg_def middleOK_def nospcrlf_def payloadByte_def)
  have s: "RawString m = Inr '':e!foo@bar.com JOIN #test54321 ::foo bar''"
    by (simp add: RawString_def c MaxMsgLength_def MsgMarker_def TrimRight_def)
  from RawString_ParseMsg_roundtrip [OF r l] s
  have "\<exists>m'. ParseMsg '':e!foo@bar.com JOIN #test54321 ::foo bar'' = Inr m'
          \<and> Raw m' = '':e!foo@bar.com JOIN #test54321 ::foo bar''
          \<and> Cmd m' = ''JOIN'' \<and> Args m' = [''#test54321'', '':foo bar'']
          \<and> Origin m' = ''e'' \<and> User m' = ''foo'' \<and> Host m' = ''bar.com''"
    by (simp add: m_def zeroMsg_def)
  then obtain m' where "ParseMsg '':e!foo@bar.com JOIN #test54321 ::foo bar'' = Inr m'"
    and "m' = \<lparr>Raw = '':e!foo@bar.com JOIN #test54321 ::foo bar'', Origin = ''e'',
            User = ''foo'', Host = ''bar.com'', Cmd = ''JOIN'',
            Args = [''#test54321'', '':foo bar'']\<rparr>"
    by (cases rule: exE) auto
  with r l s show ?thesis by (simp add: m_def)
qed

text \<open>
  C1 as stated fails for the host: a message with an origin and a host but no user is
  serialized without its host, so the host parsed back is empty.
\<close>

theorem roundtrip_host_counterexample:
  "Raw (zeroMsg\<lparr>Origin := ''nick'', Host := ''example.org'', Cmd := ''QUIT''\<rparr>) = []
   \<and> withinLimits (zeroMsg\<lparr>Origin := ''nick'', Host := ''example.org'', Cmd := ''QUIT''\<rparr>)
   \<and> Host (zeroMsg\<lparr>Origin := ''nick'', Host := ''example.org'', Cmd := ''QUIT''\<rparr>) \<noteq> []
   \<and> RawString (zeroMsg\<lparr>Origin := ''nick'', Host := ''example.org'', Cmd := ''QUIT''\<rparr>) =
       Inr '':nick QUIT''
   \<and> ParseMsg '':nick QUIT'' =
       Inr \<lparr>Raw = '':nick QUIT'', Origin = ''nick'', User = [], Host = [],
            Cmd = ''QUIT'', Args = []\<rparr>
   \<and> Host \<lparr>Raw = '':nick QUIT'', Origin = ''nick'', User = [], Host = [],
            Cmd = ''QUIT'', Args = []\<rparr> \<noteq>
       Host (zeroMsg\<lparr>Origin := ''nick'', Host := ''example.org'', Cmd := ''QUIT''\<rparr>)"
proof -
  have c: "rawCandidate (zeroMsg\<lparr>Origin := ''nick'', Host := ''example.org'', Cmd := ''QUIT''\<rparr>) =
      '':nick QUIT''"
    by (simp add: zeroMsg_def rawCandidate_def)
  have l: "withinLimits (zeroMsg\<lparr>Origin := ''nick'', Host := ''example.org'', Cmd := ''QUIT''\<rparr>)"
    unfolding withinLimits_def c
    by (simp add: zeroMsg_def middleOK_def nospcrlf_def payloadByte_def)
  have s: "RawString (zeroMsg\<lparr>Origin := ''nick'', Host := ''example.org'', Cmd := ''QUIT''\<rparr>) =
      Inr '':nick QUIT''"
    by (simp add: RawString_def c MaxMsgLength_def MsgMarker_def TrimRight_def)
  have p: "ParseMsg '':nick QUIT'' =
       Inr \<lparr>Raw = '':nick QUIT'', Origin = ''nick'', User = [], Host = [],
            Cmd = ''QUIT'', Args = []\<rparr>"
    by code_simp
  from l s p show ?thesis by (simp add: zeroMsg_def)
qed

end
